theory Spec2Isabelle
  imports Main
begin

section \<open>The platform's path functions (POSIX flavour of Node's \<open>path\<close> module)\<close>

text \<open>
  \<open>DiskMangerWorker.ts\<close> builds every path with \<open>path.normalize\<close>, \<open>path.join\<close>,
  \<open>path.dirname\<close> and \<open>path.basename\<close>, with \<open>path.sep\<close> being \<open>/\<close> (\<open>excludeDir\<close> tests
  rules against the literal \<open>'/'\<close>). The functions below follow Node's POSIX implementation
  segment by segment: a path is split at every \<open>/\<close>, empty and \<open>.\<close> segments are dropped,
  a \<open>..\<close> segment removes the segment before it (or is kept, for a relative path, when
  there is none to remove), and a trailing separator is preserved.
\<close>

fun splitSep :: "string \<Rightarrow> string list" where
  "splitSep [] = [[]]"
| "splitSep (c # cs) =
     (if c = CHR ''/'' then [] # splitSep cs
      else (c # hd (splitSep cs)) # tl (splitSep cs))"

fun joinSep :: "string list \<Rightarrow> string" where
  "joinSep [] = []"
| "joinSep [s] = s"
| "joinSep (s # t # ss) = s @ CHR ''/'' # joinSep (t # ss)"

text \<open>
  \<open>normalizeString\<close>: \<open>res\<close> is the stack of segments kept so far, the last one first.
\<close>

fun normalizeString :: "bool \<Rightarrow> string list \<Rightarrow> string list \<Rightarrow> string list" where
  "normalizeString allowAboveRoot res [] = rev res"
| "normalizeString allowAboveRoot res (seg # segs) =
     (if seg = [] \<or> seg = ''.'' then normalizeString allowAboveRoot res segs
      else if seg = ''..'' then
        (case res of
           [] \<Rightarrow>
             if allowAboveRoot then normalizeString allowAboveRoot [''..''] segs
             else normalizeString allowAboveRoot [] segs
         | r # rs \<Rightarrow>
             if r = ''..'' then
               (if allowAboveRoot then normalizeString allowAboveRoot (''..'' # res) segs
                else normalizeString allowAboveRoot res segs)
             else normalizeString allowAboveRoot rs segs)
      else normalizeString allowAboveRoot (seg # res) segs)"

definition path_normalize :: "string \<Rightarrow> string" where
  "path_normalize p =
     (if p = [] then ''.''
      else
        (let isAbsolute = (hd p = CHR ''/'');
             trailingSeparator = (last p = CHR ''/'');
             segs = normalizeString (\<not> isAbsolute) [] (splitSep p)
         in if segs = [] then
              (if isAbsolute then ''/'' else if trailingSeparator then ''./'' else ''.'')
            else (if isAbsolute then ''/'' else []) @ joinSep segs
                 @ (if trailingSeparator then ''/'' else [])))"

definition path_join :: "string list \<Rightarrow> string" where
  "path_join args =
     (let parts = filter (\<lambda>a. a \<noteq> []) args
      in if parts = [] then ''.'' else path_normalize (joinSep parts))"

text \<open>\<open>path.basename\<close> and \<open>path.dirname\<close> ignore trailing separators.\<close>

definition stripTrailingSeps :: "string \<Rightarrow> string" where
  "stripTrailingSeps p = rev (dropWhile (\<lambda>c. c = CHR ''/'') (rev p))"

definition path_basename :: "string \<Rightarrow> string" where
  "path_basename p = rev (takeWhile (\<lambda>c. c \<noteq> CHR ''/'') (rev (stripTrailingSeps p)))"

definition path_dirname :: "string \<Rightarrow> string" where
  "path_dirname p =
     (if p = [] then ''.''
      else
        (let hasRoot = (hd p = CHR ''/'');
             body = stripTrailingSeps (tl p);
             front = rev (dropWhile (\<lambda>c. c \<noteq> CHR ''/'') (rev body))
         in if front = [] then (if hasRoot then ''/'' else ''.'')
            else if hasRoot \<and> length front = 1 then ''//''
            else hd p # butlast front))"

section \<open>Path Normalizer\<close>

definition normalizeDirPath :: "string \<Rightarrow> string" where
  "normalizeDirPath dirPath = path_normalize (path_join [''./'', dirPath])"

definition pathFromRelativeDirName :: "string \<Rightarrow> string" where
  "pathFromRelativeDirName relativeDirectoryName =
     path_join [path_dirname (normalizeDirPath relativeDirectoryName), ''/'']"

text \<open>
  \<open>dirPath.trim().length === 0\<close>: the string consists of white space only. Characters are
  8-bit here, so the white space of ECMAScript is tab, line feed, vertical tab, form feed,
  carriage return, space and the no-break space.
\<close>

definition isWhiteSpace :: "char \<Rightarrow> bool" where
  "isWhiteSpace c = (c \<in> set [char_of (9::nat), char_of (10::nat), char_of (11::nat),
     char_of (12::nat), char_of (13::nat), char_of (32::nat), char_of (160::nat)])"

definition dirName :: "string \<Rightarrow> string" where
  "dirName dirPath = (if list_all isWhiteSpace dirPath then ''.'' else path_basename dirPath)"

section \<open>Data model\<close>

record Stats =
  isDirectory :: bool
  ctime :: int
  mtime :: int

definition calcLastModified :: "Stats \<Rightarrow> int" where
  "calcLastModified stat = max (ctime stat) (mtime stat)"

record DirectoryPathDTO =
  dpath :: string
  dname :: string

record FileDTO =
  fname :: string
  fdirectory :: "DirectoryPathDTO option"

text \<open>
  A photo or a video entry: \<open>PhotoDTO\<close> and \<open>VideoDTO\<close> have the same three fields, and
  \<open>metadata\<close> is \<open>null\<close> (\<open>None\<close>) when loading was skipped.
\<close>

record 'm MediaDTO =
  mname :: string
  mdirectory :: "DirectoryPathDTO option"
  metadata :: "'m option"

datatype 'm DirectoryDTO = DirectoryDTO
  (dir_id: "nat option")
  (parent: "DirectoryPathDTO option")
  (name: string)
  (path: string)
  (lastModified: int)
  (lastScanned: int)
  (directories: "'m DirectoryDTO list")
  (isPartial: bool)
  (mediaCount: nat)
  (videoCount: nat)
  (directoryCount: nat)
  (cover: "'m MediaDTO option")
  (validCover: bool)
  (media: "'m MediaDTO list")
  (metaFile: "FileDTO list")

text \<open>Assignments to one field of a directory object.\<close>

definition set_lastScanned :: "int \<Rightarrow> 'm DirectoryDTO \<Rightarrow> 'm DirectoryDTO" where
  "set_lastScanned v d = DirectoryDTO (dir_id d) (parent d) (name d) (path d) (lastModified d)
     v (directories d) (isPartial d) (mediaCount d) (videoCount d) (directoryCount d)
     (cover d) (validCover d) (media d) (metaFile d)"

definition set_isPartial :: "bool \<Rightarrow> 'm DirectoryDTO \<Rightarrow> 'm DirectoryDTO" where
  "set_isPartial v d = DirectoryDTO (dir_id d) (parent d) (name d) (path d) (lastModified d)
     (lastScanned d) (directories d) v (mediaCount d) (videoCount d) (directoryCount d)
     (cover d) (validCover d) (media d) (metaFile d)"

definition set_directories :: "'m DirectoryDTO list \<Rightarrow> 'm DirectoryDTO \<Rightarrow> 'm DirectoryDTO" where
  "set_directories v d = DirectoryDTO (dir_id d) (parent d) (name d) (path d) (lastModified d)
     (lastScanned d) v (isPartial d) (mediaCount d) (videoCount d) (directoryCount d)
     (cover d) (validCover d) (media d) (metaFile d)"

definition set_mediaCount :: "nat \<Rightarrow> 'm DirectoryDTO \<Rightarrow> 'm DirectoryDTO" where
  "set_mediaCount v d = DirectoryDTO (dir_id d) (parent d) (name d) (path d) (lastModified d)
     (lastScanned d) (directories d) (isPartial d) v (videoCount d) (directoryCount d)
     (cover d) (validCover d) (media d) (metaFile d)"

definition set_videoCount :: "nat \<Rightarrow> 'm DirectoryDTO \<Rightarrow> 'm DirectoryDTO" where
  "set_videoCount v d = DirectoryDTO (dir_id d) (parent d) (name d) (path d) (lastModified d)
     (lastScanned d) (directories d) (isPartial d) (mediaCount d) v (directoryCount d)
     (cover d) (validCover d) (media d) (metaFile d)"

definition set_directoryCount :: "nat \<Rightarrow> 'm DirectoryDTO \<Rightarrow> 'm DirectoryDTO" where
  "set_directoryCount v d = DirectoryDTO (dir_id d) (parent d) (name d) (path d) (lastModified d)
     (lastScanned d) (directories d) (isPartial d) (mediaCount d) (videoCount d) v
     (cover d) (validCover d) (media d) (metaFile d)"

definition set_cover :: "'m MediaDTO option \<Rightarrow> 'm DirectoryDTO \<Rightarrow> 'm DirectoryDTO" where
  "set_cover v d = DirectoryDTO (dir_id d) (parent d) (name d) (path d) (lastModified d)
     (lastScanned d) (directories d) (isPartial d) (mediaCount d) (videoCount d) (directoryCount d)
     v (validCover d) (media d) (metaFile d)"

definition set_media :: "'m MediaDTO list \<Rightarrow> 'm DirectoryDTO \<Rightarrow> 'm DirectoryDTO" where
  "set_media v d = DirectoryDTO (dir_id d) (parent d) (name d) (path d) (lastModified d)
     (lastScanned d) (directories d) (isPartial d) (mediaCount d) (videoCount d) (directoryCount d)
     (cover d) (validCover d) v (metaFile d)"

definition set_metaFile :: "FileDTO list \<Rightarrow> 'm DirectoryDTO \<Rightarrow> 'm DirectoryDTO" where
  "set_metaFile v d = DirectoryDTO (dir_id d) (parent d) (name d) (path d) (lastModified d)
     (lastScanned d) (directories d) (isPartial d) (mediaCount d) (videoCount d) (directoryCount d)
     (cover d) (validCover d) (media d) v"

text \<open>
  \<open>DirectoryScanSettings\<close>: every switch is optional, so a switch is \<open>undefined\<close> (\<open>None\<close>),
  \<open>false\<close> or \<open>true\<close>, and the scanner tests \<open>=== true\<close>.
\<close>

record DirectoryScanSettings =
  coverOnly :: "bool option"
  noMetaFile :: "bool option"
  noVideo :: "bool option"
  noPhoto :: "bool option"
  noDirectory :: "bool option"
  noMetadata :: "bool option"
  noChildDirPhotos :: "bool option"

definition emptySettings :: DirectoryScanSettings where
  "emptySettings = \<lparr>coverOnly = None, noMetaFile = None, noVideo = None, noPhoto = None,
     noDirectory = None, noMetadata = None, noChildDirPhotos = None\<rparr>"

section \<open>The scanner's surroundings\<close>

text \<open>
  What the scanner reads from outside: the configuration (\<open>Config\<close>, \<open>ProjectPath\<close>), the file
  system (\<open>fsp.stat\<close>, \<open>fsp.readdir\<close>, \<open>fsp.access\<close>; \<open>None\<close> and \<open>False\<close> stand for a rejected
  promise), the metadata loader (\<open>Inl\<close> carries the thrown error's text), the format
  registry (\<open>PhotoProcessing.isPhoto\<close>, \<open>VideoProcessing.isVideo\<close>, \<open>GPXProcessing.isMetaFile\<close>
  on a full path, \<open>MediaDTOUtils.isVideo\<close> on an entry's name) and the clock (\<open>Date.now()\<close>).
  None of these is defined in \<open>DiskMangerWorker.ts\<close>; they are parameters of the model.
\<close>

record 'm env =
  imageFolder :: string
  excludeFolderList :: "string list"
  excludeFileList :: "string list"
  videoEnabled :: bool
  metaFileGpx :: bool
  metaFileMarkdown :: bool
  metaFilePg2conf :: bool
  fsStat :: "string \<Rightarrow> Stats option"
  fsReaddir :: "string \<Rightarrow> string list option"
  fsAccess :: "string \<Rightarrow> bool"
  loadPhotoMetadata :: "string \<Rightarrow> string + 'm"
  loadVideoMetadata :: "string \<Rightarrow> string + 'm"
  isPhoto :: "string \<Rightarrow> bool"
  isVideo :: "string \<Rightarrow> bool"
  isMetaFile :: "string \<Rightarrow> bool"
  mediaIsVideo :: "string \<Rightarrow> bool"
  dateNow :: int

text \<open>The observable effects of a scan, in the order they happen.\<close>

datatype io_event =
    Stat string
  | Readdir string
  | Access string
  | LoadPhotoMetadata string
  | LoadVideoMetadata string
  | LoggerWarn string

datatype error =
    StatError string
  | ReaddirError string
  | PhotoMetadataError string string

type_synonym 'a io = "io_event list \<times> 'a"

definition emit :: "io_event list \<Rightarrow> 'a io \<Rightarrow> 'a io" where
  "emit es r = (es @ fst r, snd r)"

text \<open>
  Modelled from the spec: \<open>Utils.clone\<close> (common/Utils, not under src/); the spec's
  "clone this entry as the cover" is a copy with the same field values.
\<close>

definition clone :: "'m MediaDTO \<Rightarrow> 'm MediaDTO" where
  "clone photo = photo"

section \<open>Exclusion Filter\<close>

text \<open>The loop of \<open>excludeDir\<close> over \<open>Config.Indexing.excludeFolderList\<close>.\<close>

fun matchExcludeFolder :: "string list \<Rightarrow> string \<Rightarrow> string \<Rightarrow> string \<Rightarrow> bool" where
  "matchExcludeFolder [] entryName relativeName absoluteName = False"
| "matchExcludeFolder (exclude # rest) entryName relativeName absoluteName =
     (if exclude \<noteq> [] \<and> hd exclude = CHR ''/'' then
        (if exclude = absoluteName then True
         else matchExcludeFolder rest entryName relativeName absoluteName)
      else if CHR ''/'' \<in> set exclude then
        (if path_normalize exclude = relativeName then True
         else matchExcludeFolder rest entryName relativeName absoluteName)
      else
        (if exclude = entryName then True
         else matchExcludeFolder rest entryName relativeName absoluteName))"

text \<open>The loop over \<open>Config.Indexing.excludeFileList\<close>: one existence probe per marker file.\<close>

fun probeExcludeFile :: "'m env \<Rightarrow> string list \<Rightarrow> string \<Rightarrow> bool io" where
  "probeExcludeFile e [] absoluteName = ([], False)"
| "probeExcludeFile e (exclude # rest) absoluteName =
     (let probe = path_join [absoluteName, exclude]
      in if fsAccess e probe then ([Access probe], True)
         else emit [Access probe] (probeExcludeFile e rest absoluteName))"

definition excludeDir :: "'m env \<Rightarrow> string \<Rightarrow> string \<Rightarrow> string \<Rightarrow> bool io" where
  "excludeDir e entryName relativeDirectoryName absoluteDirectoryName =
     (if excludeFolderList e = [] \<and> excludeFileList e = [] then ([], False)
      else
        (let absoluteName = path_normalize (path_join [absoluteDirectoryName, entryName]);
             relativeName = path_normalize (path_join [relativeDirectoryName, entryName])
         in if matchExcludeFolder (excludeFolderList e) entryName relativeName absoluteName
            then ([], True)
            else probeExcludeFile e (excludeFileList e) absoluteName))"

section \<open>Media Classifier: enabled sidecar types\<close>

text \<open>\<open>toLowerCase\<close> on the letters \<open>A\<close> to \<open>Z\<close>, which is all the three extensions need.\<close>

definition toLowerCase :: "string \<Rightarrow> string" where
  "toLowerCase s =
     map (\<lambda>c. if (65::nat) \<le> of_char c \<and> of_char c \<le> (90::nat)
              then char_of (of_char c + (32::nat)) else c) s"

definition path_extname :: "string \<Rightarrow> string" where
  "path_extname p =
     (let base = path_basename p;
          ext = rev (takeWhile (\<lambda>c. c \<noteq> CHR ''.'') (rev base))
      in if CHR ''.'' \<notin> set base then []
         else if length ext + 1 = length base then []
         else if base = ''..'' then []
         else CHR ''.'' # ext)"

definition isEnabledMetaFile :: "'m env \<Rightarrow> string \<Rightarrow> bool" where
  "isEnabledMetaFile e fullPath =
     (let extension = toLowerCase (path_extname fullPath)
      in if extension = ''.gpx'' then metaFileGpx e
         else if extension = ''.md'' then metaFileMarkdown e
         else if extension = ''.pg2conf'' then metaFilePg2conf e
         else False)"

section \<open>Directory Scanner\<close>

definition coverOnlySettings :: DirectoryScanSettings where
  "coverOnlySettings = emptySettings\<lparr>coverOnly := Some True\<rparr>"

definition newDirectory :: "string \<Rightarrow> string \<Rightarrow> int \<Rightarrow> int \<Rightarrow> 'm DirectoryDTO" where
  "newDirectory directoryName directoryParent modified scanned =
     DirectoryDTO None None directoryName directoryParent modified scanned [] False 0 0 0
       None False [] []"

definition skipMessage :: "string \<Rightarrow> string \<Rightarrow> string" where
  "skipMessage file reason =
     ''Media loading error, skipping: '' @ file @ '', reason: '' @ reason"

text \<open>
  How one pass through the body of the \<open>for\<close> loop ends: at its end or at a \<open>continue\<close>
  (the next entry follows), at the \<open>break\<close>, or with an exception that leaves the scan.
\<close>

datatype 'm loop_exit =
    Continue "'m DirectoryDTO"
  | Break "'m DirectoryDTO"
  | Throw error

text \<open>
  \<open>scanDirectory\<close>, its loop over the listing (\<open>scanLoop\<close>) and the loop's body for one
  entry (\<open>scanEntry\<close>), both with the directory object built so far. A result is the list of
  effects together with the snapshot or the error that aborted the scan. The recursive call
  for a subdirectory is made only when \<open>coverOnly\<close> is not set and passes
  \<open>{coverOnly: true}\<close>, which is why the recursion ends.
\<close>

function scanDirectory :: "'m env \<Rightarrow> DirectoryScanSettings \<Rightarrow> string \<Rightarrow> (error + 'm DirectoryDTO) io"
  and scanLoop :: "'m env \<Rightarrow> DirectoryScanSettings \<Rightarrow> string \<Rightarrow> string \<Rightarrow> string list
       \<Rightarrow> 'm DirectoryDTO \<Rightarrow> (error + 'm DirectoryDTO) io"
  and scanEntry :: "'m env \<Rightarrow> DirectoryScanSettings \<Rightarrow> string \<Rightarrow> string \<Rightarrow> string
       \<Rightarrow> 'm DirectoryDTO \<Rightarrow> 'm loop_exit io"
where
  "scanDirectory e settings relativeDirectoryName0 =
     (let relativeDirectoryName = normalizeDirPath relativeDirectoryName0;
          directoryName = dirName relativeDirectoryName;
          directoryParent = pathFromRelativeDirName relativeDirectoryName;
          absoluteDirectoryName = path_join [imageFolder e, relativeDirectoryName]
      in case fsStat e (path_join [imageFolder e, relativeDirectoryName]) of
           None \<Rightarrow> ([Stat absoluteDirectoryName], Inl (StatError absoluteDirectoryName))
         | Some stat \<Rightarrow>
             emit [Stat absoluteDirectoryName]
               (let directory = newDirectory directoryName directoryParent
                      (calcLastModified stat) (dateNow e)
                in if noPhoto settings = Some True \<and> noMetaFile settings = Some True
                      \<and> noVideo settings = Some True
                   then ([], Inr directory)
                   else
                     (case fsReaddir e absoluteDirectoryName of
                        None \<Rightarrow> ([Readdir absoluteDirectoryName],
                                 Inl (ReaddirError absoluteDirectoryName))
                      | Some list \<Rightarrow>
                          emit [Readdir absoluteDirectoryName]
                            (case scanLoop e settings relativeDirectoryName
                                    absoluteDirectoryName list directory of
                               (evs, Inl err) \<Rightarrow> (evs, Inl err)
                             | (evs, Inr d) \<Rightarrow>
                                 (evs, Inr (set_videoCount
                                    (length (filter (\<lambda>q. mediaIsVideo e (mname q)) (media d)))
                                    (set_mediaCount (length (media d)) d)))))))"
| "scanLoop e settings relativeDirectoryName absoluteDirectoryName [] directory =
     ([], Inr directory)"
| "scanLoop e settings relativeDirectoryName absoluteDirectoryName (file # rest) directory =
     (case scanEntry e settings relativeDirectoryName absoluteDirectoryName file directory of
        (evs, Continue d) \<Rightarrow>
          emit evs (scanLoop e settings relativeDirectoryName absoluteDirectoryName rest d)
      | (evs, Break d) \<Rightarrow> (evs, Inr d)
      | (evs, Throw err) \<Rightarrow> (evs, Inl err))"
| "scanEntry e settings relativeDirectoryName absoluteDirectoryName file directory =
     (let fullFilePath = path_normalize (path_join [absoluteDirectoryName, file])
      in case fsStat e fullFilePath of
           None \<Rightarrow> ([Stat fullFilePath], Throw (StatError fullFilePath))
         | Some stat \<Rightarrow>
             emit [Stat fullFilePath]
               (if isDirectory stat then
                  (let counted = set_directoryCount (directoryCount directory + 1) directory
                   in if noDirectory settings = Some True \<or> coverOnly settings = Some True
                      then ([], Continue counted)
                      else
                        (case excludeDir e file relativeDirectoryName absoluteDirectoryName of
                           (probes, excluded) \<Rightarrow>
                             emit probes
                               (if excluded then ([], Continue counted)
                                else
                                  (case scanDirectory e coverOnlySettings
                                          (path_join [relativeDirectoryName, file]) of
                                     (evs, Inl err) \<Rightarrow> (evs, Throw err)
                                   | (evs, Inr d) \<Rightarrow>
                                       (evs, Continue
                                          (set_directories
                                             (directories counted
                                              @ [set_isPartial True (set_lastScanned 0 d)])
                                             counted))))))
                else if isPhoto e fullFilePath then
                  (if noPhoto settings = Some True then ([], Continue directory)
                   else
                     (case (if noMetadata settings = Some True then ([], Inr None)
                            else ([LoadPhotoMetadata fullFilePath],
                                  map_sum id Some (loadPhotoMetadata e fullFilePath))) of
                        (evs, Inl reason) \<Rightarrow> (evs, Throw (PhotoMetadataError fullFilePath reason))
                      | (evs, Inr md) \<Rightarrow>
                          (let photo = \<lparr>mname = file, mdirectory = None, metadata = md\<rparr>;
                               covered =
                                 (if cover directory = None
                                  then set_cover
                                         (Some ((clone photo)\<lparr>mdirectory :=
                                            Some \<lparr>dpath = path directory,
                                                  dname = name directory\<rparr>\<rparr>))
                                         directory
                                  else directory);
                               pushed = set_media (media covered @ [photo]) covered
                           in if coverOnly settings = Some True then (evs, Break pushed)
                              else (evs, Continue pushed))))
                else if isVideo e fullFilePath then
                  (if \<not> videoEnabled e \<or> noVideo settings = Some True
                      \<or> coverOnly settings = Some True
                   then ([], Continue directory)
                   else if noMetadata settings = Some True
                   then ([], Continue
                          (set_media
                             (media directory
                              @ [\<lparr>mname = file, mdirectory = None, metadata = None\<rparr>])
                             directory))
                   else
                     (case loadVideoMetadata e fullFilePath of
                        Inl reason \<Rightarrow>
                          ([LoadVideoMetadata fullFilePath,
                            LoggerWarn (skipMessage file reason)],
                           Continue directory)
                      | Inr md \<Rightarrow>
                          ([LoadVideoMetadata fullFilePath],
                           Continue
                             (set_media
                                (media directory
                                 @ [\<lparr>mname = file, mdirectory = None, metadata = Some md\<rparr>])
                                directory))))
                else if isMetaFile e fullFilePath then
                  (if \<not> isEnabledMetaFile e fullFilePath \<or> noMetaFile settings = Some True
                      \<or> coverOnly settings = Some True
                   then ([], Continue directory)
                   else ([], Continue
                          (set_metaFile
                             (metaFile directory @ [\<lparr>fname = file, fdirectory = None\<rparr>])
                             directory)))
                else ([], Continue directory)))"
  by pat_completeness auto
termination
  by (relation "inv_image (less_than <*lex*> less_than <*lex*> less_than)
        (\<lambda>x. case x of
           Inl (e, settings, rel) \<Rightarrow>
             (if coverOnly settings = Some True then 0 else 1 :: nat, 2 :: nat, 0 :: nat)
         | Inr (Inl (e, settings, rel, absdir, list, directory)) \<Rightarrow>
             (if coverOnly settings = Some True then 0 else 1, 1, length list)
         | Inr (Inr (e, settings, rel, absdir, entry, directory)) \<Rightarrow>
             (if coverOnly settings = Some True then 0 else 1, 0, 0))")
     (auto simp: coverOnlySettings_def emptySettings_def)

text \<open>
  \<open>scanDirectoryNoMetadata\<close> writes \<open>noMetadata\<close> into the settings object it was given, so
  the settings objects live in a store and the caller passes a reference.
\<close>

type_synonym store = "nat \<Rightarrow> DirectoryScanSettings"

definition scanDirectoryNoMetadata ::
  "'m env \<Rightarrow> store \<Rightarrow> string \<Rightarrow> nat \<Rightarrow> store \<times> (error + 'm DirectoryDTO) io" where
  "scanDirectoryNoMetadata e h relativeDirectoryName settings =
     (let h' = h(settings := (h settings)\<lparr>noMetadata := Some True\<rparr>)
      in (h', scanDirectory e (h' settings) relativeDirectoryName))"

section \<open>Predicates used in the proofs\<close>

text \<open>
  Segments that \<open>normalizeString\<close> keeps, and the shape of its stack: \<open>..\<close> segments only
  at the bottom (and only when going above the root is allowed), kept segments above them.
\<close>

definition sepFree :: "string \<Rightarrow> bool" where
  "sepFree s = (CHR ''/'' \<notin> set s)"

definition goodSeg :: "string \<Rightarrow> bool" where
  "goodSeg s = (s \<noteq> [] \<and> s \<noteq> ''.'' \<and> s \<noteq> ''..'' \<and> sepFree s)"

fun stackOk :: "bool \<Rightarrow> string list \<Rightarrow> bool" where
  "stackOk a [] = True"
| "stackOk a (r # rs) =
     (if r = ''..'' then a \<and> list_all (\<lambda>x. x = ''..'') rs else goodSeg r \<and> stackOk a rs)"

section \<open>Sample libraries\<close>

text \<open>
  Test doubles for the configuration, the file system and the metadata loader, with the
  library at \<open>/g\<close>; the format registry goes by the extension.
\<close>

definition dirStat :: Stats where
  "dirStat = \<lparr>isDirectory = True, ctime = 10, mtime = 20\<rparr>"

definition fileStat :: Stats where
  "fileStat = \<lparr>isDirectory = False, ctime = 30, mtime = 25\<rparr>"

definition statOf :: "string list \<Rightarrow> string list \<Rightarrow> string \<Rightarrow> Stats option" where
  "statOf dirs files p =
     (if p \<in> set dirs then Some dirStat else if p \<in> set files then Some fileStat else None)"

definition baseEnv :: "nat env" where
  "baseEnv = \<lparr>imageFolder = ''/g'', excludeFolderList = [], excludeFileList = [],
     videoEnabled = True, metaFileGpx = True, metaFileMarkdown = True, metaFilePg2conf = True,
     fsStat = (\<lambda>p. None), fsReaddir = (\<lambda>p. None), fsAccess = (\<lambda>p. False),
     loadPhotoMetadata = (\<lambda>p. Inr 7), loadVideoMetadata = (\<lambda>p. Inr 8),
     isPhoto = (\<lambda>p. path_extname p = ''.jpg''),
     isVideo = (\<lambda>p. path_extname p = ''.mp4''),
     isMetaFile = (\<lambda>p. path_extname p = ''.gpx''),
     mediaIsVideo = (\<lambda>n. path_extname n = ''.mp4''),
     dateNow = 1000\<rparr>"

definition albumEnv :: "nat env" where
  "albumEnv = baseEnv\<lparr>
     fsStat := statOf [''/g/'', ''/g/a'', ''/g/a/b'']
                 [''/g/a/p.jpg'', ''/g/a/b/q.jpg'', ''/g/v.mp4'', ''/g/r.jpg''],
     fsReaddir := map_of [(''/g/'', [''a'', ''v.mp4'', ''r.jpg'']), (''/g/a'', [''b'', ''p.jpg'']),
                          (''/g/a/b'', [''q.jpg''])]\<rparr>"

definition skipAll :: DirectoryScanSettings where
  "skipAll = emptySettings\<lparr>noPhoto := Some True, noMetaFile := Some True, noVideo := Some True\<rparr>"

definition privateEnv :: "nat env" where
  "privateEnv = baseEnv\<lparr>excludeFolderList := [''./private'']\<rparr>"

definition rulesEnv :: "nat env" where
  "rulesEnv = baseEnv\<lparr>excludeFolderList := [''/abs/secret'', ''rel/sub'', ''bare'']\<rparr>"

text \<open>The test that one rule of \<open>excludeFolderList\<close> makes.\<close>

definition folderRuleMatches :: "string \<Rightarrow> string \<Rightarrow> string \<Rightarrow> string \<Rightarrow> bool" where
  "folderRuleMatches r n relName absName =
     (if r \<noteq> [] \<and> hd r = CHR ''/'' then r = absName
      else if CHR ''/'' \<in> set r then path_normalize r = relName
      else r = n)"

text \<open>
  The photo entries of a listing, in listing order: the entries whose stat succeeds, that are
  not directories, and that the format registry takes for photos.
\<close>

definition isPhotoEntry :: "'m env \<Rightarrow> string \<Rightarrow> string \<Rightarrow> bool" where
  "isPhotoEntry e absdir f =
     (case fsStat e (path_normalize (path_join [absdir, f])) of
        None \<Rightarrow> False
      | Some st \<Rightarrow> \<not> isDirectory st \<and> isPhoto e (path_normalize (path_join [absdir, f])))"

definition photoEntries :: "'m env \<Rightarrow> string \<Rightarrow> string list \<Rightarrow> string list" where
  "photoEntries e absdir list = filter (isPhotoEntry e absdir) list"

definition deepEnv :: "nat env" where
  "deepEnv = baseEnv\<lparr>
     fsStat := statOf [''/g/'', ''/g/a'', ''/g/a/b''] [''/g/a/b/q.jpg''],
     fsReaddir := map_of [(''/g/'', [''a'']), (''/g/a'', [''b'']), (''/g/a/b'', [''q.jpg''])]\<rparr>"

definition coverEnv :: "nat env" where
  "coverEnv = baseEnv\<lparr>
     fsStat := statOf [''/g/'', ''/g/a'', ''/g/a/b''] [''/g/a/p.jpg'', ''/g/a/b/q.jpg''],
     fsReaddir := map_of [(''/g/'', [''a'']), (''/g/a'', [''b'', ''p.jpg'']),
                          (''/g/a/b'', [''q.jpg''])]\<rparr>"







section \<open>Properties of the path functions\<close>

lemma splitSep_nonempty [simp]: "splitSep p \<noteq> []"
  by (induction p) auto

lemma splitSep_sepFree: "s \<in> set (splitSep p) \<Longrightarrow> sepFree s"
proof (induction p arbitrary: s)
  case Nil
  then show ?case by (simp add: sepFree_def)
next
  case (Cons c cs)
  have ne: "splitSep cs \<noteq> []" by simp
  show ?case
  proof (cases "c = CHR ''/''")
    case True
    with Cons show ?thesis by (auto simp: sepFree_def)
  next
    case False
    with Cons.prems have "s = c # hd (splitSep cs) \<or> s \<in> set (tl (splitSep cs))" by simp
    then show ?thesis
    proof
      assume s: "s = c # hd (splitSep cs)"
      have "hd (splitSep cs) \<in> set (splitSep cs)" using ne by simp
      then have "sepFree (hd (splitSep cs))" by (rule Cons.IH)
      with s False show ?thesis by (simp add: sepFree_def)
    next
      assume "s \<in> set (tl (splitSep cs))"
      then have "s \<in> set (splitSep cs)" using ne by (meson list.set_sel(2))
      then show ?thesis by (rule Cons.IH)
    qed
  qed
qed

lemma splitSep_snoc_sep: "splitSep (p @ ''/'') = splitSep p @ [[]]"
  by (induction p) (auto simp: hd_append)

lemma splitSep_sepFree_id: "sepFree s \<Longrightarrow> splitSep s = [s]"
  by (induction s) (auto simp: sepFree_def)

lemma splitSep_append_sep: "sepFree s \<Longrightarrow> splitSep (s @ CHR ''/'' # t) = s # splitSep t"
  by (induction s) (auto simp: sepFree_def)

lemma splitSep_joinSep: "segs \<noteq> [] \<Longrightarrow> \<forall>s\<in>set segs. sepFree s \<Longrightarrow> splitSep (joinSep segs) = segs"
  by (induction segs rule: joinSep.induct) (auto simp: splitSep_sepFree_id splitSep_append_sep)

lemma allDots_stackOk: "a \<Longrightarrow> list_all (\<lambda>x. x = ''..'') rs \<Longrightarrow> stackOk a rs"
  by (induction rs) auto

lemma stackOk_suffix: "stackOk a (xs @ ys) \<Longrightarrow> stackOk a ys"
  by (induction xs) (auto simp: allDots_stackOk split: if_splits)

lemma stackOk_elems: "stackOk a rs \<Longrightarrow> s \<in> set rs \<Longrightarrow> s \<noteq> [] \<and> sepFree s"
proof (induction rs)
  case Nil
  then show ?case by simp
next
  case (Cons r rs)
  show ?case
  proof (cases "r = ''..''")
    case True
    with Cons.prems have "s = ''..''" by (auto simp: list_all_iff)
    then show ?thesis by (simp add: sepFree_def)
  next
    case False
    with Cons.prems have g: "goodSeg r" and ok: "stackOk a rs" by simp_all
    from Cons.prems(2) have "s = r \<or> s \<in> set rs" by simp
    then show ?thesis
    proof
      assume "s = r"
      with g show ?thesis unfolding goodSeg_def by blast
    next
      assume "s \<in> set rs"
      with ok show ?thesis by (rule Cons.IH)
    qed
  qed
qed

lemma normalizeString_stackOk:
  "stackOk a res \<Longrightarrow> \<forall>s\<in>set segs. sepFree s \<Longrightarrow> stackOk a (rev (normalizeString a res segs))"
proof (induction segs arbitrary: res)
  case Nil
  then show ?case by simp
next
  case (Cons seg segs)
  then show ?case
    by (cases res) (auto simp: goodSeg_def split: if_splits)
qed

lemma normalizeString_fixed:
  "stackOk a (rev segs @ res) \<Longrightarrow> normalizeString a res segs = rev res @ segs"
proof (induction segs arbitrary: res)
  case Nil
  then show ?case by simp
next
  case (Cons seg segs)
  from Cons.prems have all: "stackOk a (rev segs @ seg # res)" by simp
  then have top: "stackOk a (seg # res)" by (rule stackOk_suffix)
  have step: "normalizeString a res (seg # segs) = normalizeString a (seg # res) segs"
    using top by (cases res) (auto simp: goodSeg_def split: if_splits)
  show ?case using Cons.IH [OF all] step by simp
qed

lemma normalizeString_snoc_empty: "normalizeString a res (segs @ [[]]) = normalizeString a res segs"
  by (induction segs arbitrary: res) (auto split: list.splits)

lemma joinSep_nonempty: "segs \<noteq> [] \<Longrightarrow> \<forall>s\<in>set segs. s \<noteq> [] \<Longrightarrow> joinSep segs \<noteq> []"
  by (induction segs rule: joinSep.induct) auto

lemma hd_joinSep: "segs \<noteq> [] \<Longrightarrow> hd segs \<noteq> [] \<Longrightarrow> hd (joinSep segs) = hd (hd segs)"
  by (induction segs rule: joinSep.induct) auto

lemma last_joinSep:
  "segs \<noteq> [] \<Longrightarrow> \<forall>s\<in>set segs. s \<noteq> [] \<Longrightarrow> last (joinSep segs) = last (last segs)"
proof (induction segs rule: joinSep.induct)
  case (3 s t ss)
  have "joinSep (t # ss) \<noteq> []" using 3 by (intro joinSep_nonempty) auto
  with 3 show ?case by simp
qed auto

lemma normalizeString_result:
  "stackOk a (rev (normalizeString a [] (splitSep p)))"
  by (rule normalizeString_stackOk) (auto intro: splitSep_sepFree)

lemma path_normalize_fixed_form:
  assumes ok: "stackOk (\<not> isAbs) (rev segs)" and ne: "segs \<noteq> []"
    and r_def: "r = (if isAbs then ''/'' else []) @ joinSep segs @ (if trail then ''/'' else [])"
  shows "path_normalize r = r"
proof -
  have elems: "\<forall>s\<in>set segs. s \<noteq> [] \<and> sepFree s"
    using stackOk_elems [OF ok] by simp
  then have elems_ne: "\<forall>s\<in>set segs. s \<noteq> []" and elems_sf: "\<forall>s\<in>set segs. sepFree s"
    by blast+
  have jne: "joinSep segs \<noteq> []" using ne elems_ne by (rule joinSep_nonempty)
  have hdseg: "hd segs \<noteq> [] \<and> sepFree (hd segs)" using ne elems by simp
  have lastseg: "last segs \<noteq> [] \<and> sepFree (last segs)" using ne elems by simp
  have hdj: "hd (joinSep segs) \<noteq> CHR ''/''"
  proof -
    have "hd (joinSep segs) = hd (hd segs)" using ne hdseg by (simp add: hd_joinSep)
    moreover have "hd (hd segs) \<in> set (hd segs)" using hdseg by simp
    ultimately show ?thesis using hdseg unfolding sepFree_def by metis
  qed
  have lastj: "last (joinSep segs) \<noteq> CHR ''/''"
  proof -
    have "last (joinSep segs) = last (last segs)" using ne elems_ne by (rule last_joinSep)
    moreover have "last (last segs) \<in> set (last segs)" using lastseg by simp
    ultimately show ?thesis using lastseg unfolding sepFree_def by metis
  qed
  have rne: "r \<noteq> []" using jne by (simp add: r_def)
  have hdr: "(hd r = CHR ''/'') = isAbs" using jne hdj by (simp add: r_def)
  have lastr: "(last r = CHR ''/'') = trail" using jne lastj by (simp add: r_def)
  have sj: "splitSep (joinSep segs) = segs" using ne elems_sf by (rule splitSep_joinSep)
  have split_r: "splitSep r = (if isAbs then [[]] else []) @ segs @ (if trail then [[]] else [])"
    using sj splitSep_snoc_sep [of "joinSep segs"] splitSep_snoc_sep [of "CHR ''/'' # joinSep segs"]
    by (simp add: r_def)
  have fixed: "normalizeString (\<not> isAbs) [] segs = segs"
    using normalizeString_fixed [of "\<not> isAbs" segs "[]"] ok by simp
  have ns: "normalizeString (\<not> isAbs) [] (splitSep r) = segs"
    using fixed by (cases isAbs; cases trail) (simp_all add: split_r normalizeString_snoc_empty)
  show ?thesis
    unfolding path_normalize_def [of r] using rne hdr lastr ns ne
    by (simp add: Let_def) (simp add: r_def)
qed

lemma path_normalize_idem: "path_normalize (path_normalize p) = path_normalize p"
proof (cases "p = []")
  case True
  then show ?thesis by (simp add: path_normalize_def)
next
  case False
  define isAbs where "isAbs = (hd p = CHR ''/'')"
  define trail where "trail = (last p = CHR ''/'')"
  define segs where "segs = normalizeString (\<not> isAbs) [] (splitSep p)"
  have ok: "stackOk (\<not> isAbs) (rev segs)" unfolding segs_def by (rule normalizeString_result)
  show ?thesis
  proof (cases "segs = []")
    case True
    then have "path_normalize p = (if isAbs then ''/'' else if trail then ''./'' else ''.'')"
      using False by (simp add: path_normalize_def Let_def isAbs_def trail_def segs_def)
    moreover have "path_normalize ''/'' = ''/''" "path_normalize ''./'' = ''./''"
      "path_normalize ''.'' = ''.''"
      by (simp_all add: path_normalize_def)
    ultimately show ?thesis by simp
  next
    case ne: False
    have "path_normalize p
        = (if isAbs then ''/'' else []) @ joinSep segs @ (if trail then ''/'' else [])"
      using False ne by (simp add: path_normalize_def Let_def isAbs_def trail_def segs_def)
    then show ?thesis using path_normalize_fixed_form [OF ok ne] by simp
  qed
qed

lemma path_normalize_relative:
  assumes "p \<noteq> []" "hd p \<noteq> CHR ''/''"
  shows "path_normalize p \<noteq> [] \<and> hd (path_normalize p) \<noteq> CHR ''/''"
proof -
  define trail where "trail = (last p = CHR ''/'')"
  define segs where "segs = normalizeString True [] (splitSep p)"
  have ok: "stackOk True (rev segs)" unfolding segs_def by (rule normalizeString_result)
  show ?thesis
  proof (cases "segs = []")
    case True
    then show ?thesis using assms by (simp add: path_normalize_def Let_def segs_def)
  next
    case ne: False
    have elems: "\<forall>s\<in>set segs. s \<noteq> [] \<and> sepFree s" using stackOk_elems [OF ok] by simp
    then have hdseg: "hd segs \<noteq> [] \<and> sepFree (hd segs)" using ne by simp
    have jne: "joinSep segs \<noteq> []" using ne elems by (intro joinSep_nonempty) auto
    have "hd (joinSep segs) = hd (hd segs)" using ne hdseg by (simp add: hd_joinSep)
    moreover have "hd (hd segs) \<in> set (hd segs)" using hdseg by simp
    ultimately have hdj: "hd (joinSep segs) \<noteq> CHR ''/''" using hdseg unfolding sepFree_def by metis
    have "path_normalize p = joinSep segs @ (if trail then ''/'' else [])"
      using assms ne by (simp add: path_normalize_def Let_def trail_def segs_def)
    then show ?thesis using jne hdj by simp
  qed
qed

lemma path_normalize_dot_prefix:
  assumes "q \<noteq> []" "hd q \<noteq> CHR ''/''"
  shows "path_normalize (''.//'' @ q) = path_normalize q"
  using assms by (simp add: path_normalize_def Let_def)

lemma normalizeDirPath_eq:
  "normalizeDirPath p = path_normalize (if p = [] then ''./'' else ''.//'' @ p)"
  by (simp add: normalizeDirPath_def path_join_def path_normalize_idem)

text \<open>
  Claim C9. Path normalization is idempotent: normalizing a path that \<open>normalizeDirPath\<close>
  returned gives the same path back, for every input string.
\<close>

theorem normalizeDirPath_idempotent:
  "normalizeDirPath (normalizeDirPath p) = normalizeDirPath p"
proof -
  define x where "x = (if p = [] then ''./'' else ''.//'' @ p)"
  define q where "q = path_normalize x"
  have x: "x \<noteq> []" "hd x \<noteq> CHR ''/''" by (simp_all add: x_def)
  have q: "q \<noteq> []" "hd q \<noteq> CHR ''/''" using path_normalize_relative [OF x] by (simp_all add: q_def)
  have "normalizeDirPath p = q" by (simp add: normalizeDirPath_eq x_def q_def)
  moreover have "normalizeDirPath q = path_normalize (''.//'' @ q)"
    using q by (simp add: normalizeDirPath_eq)
  moreover have "path_normalize (''.//'' @ q) = path_normalize q"
    using q by (rule path_normalize_dot_prefix)
  moreover have "path_normalize q = q" by (simp add: q_def path_normalize_idem)
  ultimately show ?thesis by simp
qed

section \<open>Properties of the scanner\<close>

lemmas setters = set_lastScanned_def set_isPartial_def set_directories_def set_mediaCount_def
  set_videoCount_def set_directoryCount_def set_cover_def set_media_def set_metaFile_def

declare scanDirectory.simps [simp del] scanLoop.simps [simp del] scanEntry.simps [simp del]

lemma emit_pair [simp]: "emit es (a, b) = (es @ a, b)"
  by (simp add: emit_def)

lemma emit_eq_iff: "emit es r = (evs, res) \<longleftrightarrow> (\<exists>t. r = (t, res) \<and> evs = es @ t)"
  by (cases r) auto

lemma scanEntry_invariant:
  assumes run: "scanEntry e s rel absdir entry dir = (evs, r)"
    and res: "r = Continue d \<or> r = Break d"
    and init: "P dir"
    and count: "\<And>d st. P d \<Longrightarrow>
        fsStat e (path_normalize (path_join [absdir, entry])) = Some st \<Longrightarrow> isDirectory st \<Longrightarrow>
        P (set_directoryCount (Suc (directoryCount d)) d)"
    and child: "\<And>d c evs'. P d \<Longrightarrow> coverOnly s \<noteq> Some True \<Longrightarrow> noDirectory s \<noteq> Some True \<Longrightarrow>
        scanDirectory e coverOnlySettings (path_join [rel, entry]) = (evs', Inr c) \<Longrightarrow>
        P (set_directories (directories d @ [set_isPartial True (set_lastScanned 0 c)]) d)"
    and cov: "\<And>d md st. P d \<Longrightarrow> cover d = None \<Longrightarrow>
        fsStat e (path_normalize (path_join [absdir, entry])) = Some st \<Longrightarrow> \<not> isDirectory st \<Longrightarrow>
        (noMetadata s = Some True \<longrightarrow> md = None) \<Longrightarrow>
        P (set_cover (Some \<lparr>mname = entry,
             mdirectory = Some \<lparr>dpath = path d, dname = name d\<rparr>, metadata = md\<rparr>) d)"
    and med: "\<And>d md st. P d \<Longrightarrow>
        fsStat e (path_normalize (path_join [absdir, entry])) = Some st \<Longrightarrow> \<not> isDirectory st \<Longrightarrow>
        (noMetadata s = Some True \<longrightarrow> md = None) \<Longrightarrow>
        P (set_media (media d @ [\<lparr>mname = entry, mdirectory = None, metadata = md\<rparr>]) d)"
    and meta: "\<And>d st. P d \<Longrightarrow>
        fsStat e (path_normalize (path_join [absdir, entry])) = Some st \<Longrightarrow> \<not> isDirectory st \<Longrightarrow>
        P (set_metaFile (metaFile d @ [\<lparr>fname = entry, fdirectory = None\<rparr>]) d)"
  shows "P d"
proof (cases "fsStat e (path_normalize (path_join [absdir, entry]))")
  case None
  with run res show ?thesis by (auto simp: scanEntry.simps Let_def)
next
  case (Some st)
  show ?thesis
  proof (cases "isDirectory st")
    case True
    from run res init Some True show ?thesis
      by (auto simp: scanEntry.simps Let_def emit_eq_iff
            split: if_splits prod.splits sum.splits
            intro: count [OF _ Some True] child)
  next
    case False
    have photo: "P (set_media (media c @ [\<lparr>mname = entry, mdirectory = None, metadata = md\<rparr>]) c)"
      if "noMetadata s = Some True \<longrightarrow> md = None"
        and "c = (if cover dir = None
                  then set_cover (Some \<lparr>mname = entry,
                         mdirectory = Some \<lparr>dpath = path dir, dname = name dir\<rparr>,
                         metadata = md\<rparr>) dir
                  else dir)" for c md
    proof -
      have "P c" using that init cov [OF _ _ Some False] by (cases "cover dir = None") simp_all
      then show ?thesis using Some False that(1) by (rule med)
    qed
    from run res init Some False show ?thesis
      by (auto simp: scanEntry.simps Let_def emit_eq_iff clone_def
            split: if_splits prod.splits sum.splits
            intro: med [OF _ Some False] meta [OF _ Some False] photo)
  qed
qed

lemma scanLoop_invariant_gen:
  assumes run: "scanLoop e s rel absdir list dir = (evs, Inr d)"
    and sub: "set list \<subseteq> S"
    and init: "P dir"
    and count: "\<And>d st entry. P d \<Longrightarrow> entry \<in> S \<Longrightarrow>
        fsStat e (path_normalize (path_join [absdir, entry])) = Some st \<Longrightarrow> isDirectory st \<Longrightarrow>
        P (set_directoryCount (Suc (directoryCount d)) d)"
    and child: "\<And>d c evs' entry. P d \<Longrightarrow> entry \<in> S \<Longrightarrow>
        coverOnly s \<noteq> Some True \<Longrightarrow> noDirectory s \<noteq> Some True \<Longrightarrow>
        scanDirectory e coverOnlySettings (path_join [rel, entry]) = (evs', Inr c) \<Longrightarrow>
        P (set_directories (directories d @ [set_isPartial True (set_lastScanned 0 c)]) d)"
    and cov: "\<And>d md st entry. P d \<Longrightarrow> entry \<in> S \<Longrightarrow> cover d = None \<Longrightarrow>
        fsStat e (path_normalize (path_join [absdir, entry])) = Some st \<Longrightarrow> \<not> isDirectory st \<Longrightarrow>
        (noMetadata s = Some True \<longrightarrow> md = None) \<Longrightarrow>
        P (set_cover (Some \<lparr>mname = entry,
             mdirectory = Some \<lparr>dpath = path d, dname = name d\<rparr>, metadata = md\<rparr>) d)"
    and med: "\<And>d md st entry. P d \<Longrightarrow> entry \<in> S \<Longrightarrow>
        fsStat e (path_normalize (path_join [absdir, entry])) = Some st \<Longrightarrow> \<not> isDirectory st \<Longrightarrow>
        (noMetadata s = Some True \<longrightarrow> md = None) \<Longrightarrow>
        P (set_media (media d @ [\<lparr>mname = entry, mdirectory = None, metadata = md\<rparr>]) d)"
    and meta: "\<And>d st entry. P d \<Longrightarrow> entry \<in> S \<Longrightarrow>
        fsStat e (path_normalize (path_join [absdir, entry])) = Some st \<Longrightarrow> \<not> isDirectory st \<Longrightarrow>
        P (set_metaFile (metaFile d @ [\<lparr>fname = entry, fdirectory = None\<rparr>]) d)"
  shows "P d"
  using run sub init
proof (induction list arbitrary: dir evs)
  case Nil
  then show ?case by (simp add: scanLoop.simps)
next
  case (Cons entry rest)
  have inS: "entry \<in> S" and restS: "set rest \<subseteq> S" using Cons.prems(2) by simp_all
  obtain evs1 r where step: "scanEntry e s rel absdir entry dir = (evs1, r)"
    by (cases "scanEntry e s rel absdir entry dir")
  have stepP: "P d'" if "r = Continue d' \<or> r = Break d'" for d'
    using step that Cons.prems(3) count [OF _ inS] child [OF _ inS] cov [OF _ inS]
      med [OF _ inS] meta [OF _ inS]
    by (rule scanEntry_invariant)
  show ?case
  proof (cases r)
    case (Continue d')
    with Cons.prems(1) step obtain t where rest: "scanLoop e s rel absdir rest d' = (t, Inr d)"
      by (auto simp: scanLoop.simps emit_eq_iff)
    have "P d'" using stepP Continue by simp
    with rest restS show ?thesis by (rule Cons.IH)
  next
    case (Break d')
    with Cons.prems(1) step have "d' = d" by (simp add: scanLoop.simps)
    with stepP Break show ?thesis by simp
  next
    case (Throw err)
    with Cons.prems(1) step show ?thesis by (simp add: scanLoop.simps)
  qed
qed

lemmas scanLoop_invariant = scanLoop_invariant_gen [OF _ subset_refl]

lemma scanDirectory_Inr:
  assumes "scanDirectory e s rel0 = (evs, Inr d)"
  defines "rel \<equiv> normalizeDirPath rel0"
  defines "absdir \<equiv> path_join [imageFolder e, rel]"
  obtains (empty) st where "fsStat e absdir = Some st"
      "noPhoto s = Some True" "noMetaFile s = Some True" "noVideo s = Some True"
      "evs = [Stat absdir]"
      "d = newDirectory (dirName rel) (pathFromRelativeDirName rel) (calcLastModified st) (dateNow e)"
  | (listed) st list t d' where "fsStat e absdir = Some st"
      "\<not> (noPhoto s = Some True \<and> noMetaFile s = Some True \<and> noVideo s = Some True)"
      "fsReaddir e absdir = Some list"
      "scanLoop e s rel absdir list
         (newDirectory (dirName rel) (pathFromRelativeDirName rel) (calcLastModified st) (dateNow e))
         = (t, Inr d')"
      "evs = Stat absdir # Readdir absdir # t"
      "d = set_videoCount (length (filter (\<lambda>q. mediaIsVideo e (mname q)) (media d')))
             (set_mediaCount (length (media d')) d')"
  using assms(1) unfolding rel_def absdir_def
  by (auto simp: scanDirectory.simps Let_def emit_eq_iff
        split: option.splits if_splits prod.splits sum.splits)

section \<open>The short circuit\<close>

text \<open>
  Claim C6. With \<open>noPhoto\<close>, \<open>noMetaFile\<close> and \<open>noVideo\<close> all \<open>true\<close>, the scan of a
  directory that can be stat-ed returns the empty but valid snapshot of that directory: its
  name and parent path come from the normalized path, \<open>lastModified\<close> from the stat,
  \<open>lastScanned\<close> is the current time, \<open>isPartial\<close> and \<open>validCover\<close> are \<open>false\<close>, there are no
  media, no sidecar files, no children and no cover, and all counts are zero. The only
  effect is the stat of the directory itself: there is no \<open>readdir\<close> and no I/O for any
  entry.
\<close>

theorem scanDirectory_nothing_to_scan:
  assumes "noPhoto s = Some True" and "noMetaFile s = Some True" and "noVideo s = Some True"
    and "fsStat e (path_join [imageFolder e, normalizeDirPath rel]) = Some st"
  shows "\<exists>d. scanDirectory e s rel
            = ([Stat (path_join [imageFolder e, normalizeDirPath rel])], Inr d)
          \<and> d = DirectoryDTO None None (dirName (normalizeDirPath rel))
                 (pathFromRelativeDirName (normalizeDirPath rel))
                 (max (ctime st) (mtime st)) (dateNow e) [] False 0 0 0 None False [] []
          \<and> name d = dirName (normalizeDirPath rel)
          \<and> path d = pathFromRelativeDirName (normalizeDirPath rel)
          \<and> lastModified d = max (ctime st) (mtime st) \<and> lastScanned d = dateNow e
          \<and> \<not> isPartial d \<and> \<not> validCover d
          \<and> media d = [] \<and> metaFile d = [] \<and> directories d = [] \<and> cover d = None
          \<and> mediaCount d = 0 \<and> videoCount d = 0 \<and> directoryCount d = 0"
  using assms
  by (simp add: scanDirectory.simps Let_def newDirectory_def calcLastModified_def)

theorem scanDirectory_nothing_to_scan_witness:
  "noPhoto skipAll = Some True \<and> noMetaFile skipAll = Some True \<and> noVideo skipAll = Some True
   \<and> fsStat albumEnv (path_join [imageFolder albumEnv, normalizeDirPath ''a'']) = Some dirStat
   \<and> (\<exists>d. scanDirectory albumEnv skipAll ''a'' = ([Stat ''/g/a''], Inr d)
          \<and> d = DirectoryDTO None None ''a'' ''./'' 20 1000 [] False 0 0 0 None False [] []
          \<and> name d = ''a'' \<and> path d = ''./'' \<and> lastModified d = 20 \<and> lastScanned d = 1000
          \<and> \<not> isPartial d \<and> \<not> validCover d
          \<and> media d = [] \<and> metaFile d = [] \<and> directories d = [] \<and> cover d = None
          \<and> mediaCount d = 0 \<and> videoCount d = 0 \<and> directoryCount d = 0)"
proof -
  have flags: "noPhoto skipAll = Some True" "noMetaFile skipAll = Some True"
    "noVideo skipAll = Some True"
    by (simp_all add: skipAll_def emptySettings_def)
  have n: "normalizeDirPath ''a'' = ''a''"
    by (simp add: normalizeDirPath_def path_join_def path_normalize_def)
  have p: "path_join [imageFolder albumEnv, ''a''] = ''/g/a''"
    by (simp add: albumEnv_def baseEnv_def path_join_def path_normalize_def)
  have st: "fsStat albumEnv (path_join [imageFolder albumEnv, normalizeDirPath ''a'']) = Some dirStat"
    unfolding n p by (simp add: albumEnv_def baseEnv_def statOf_def)
  have nm: "dirName ''a'' = ''a''"
    by code_simp
  have pa: "pathFromRelativeDirName ''a'' = ''./''"
    by code_simp
  have tm: "max (ctime dirStat) (mtime dirStat) = 20" "dateNow albumEnv = 1000"
    by (simp_all add: dirStat_def albumEnv_def baseEnv_def)
  show ?thesis
    using scanDirectory_nothing_to_scan [OF flags st] flags st
    unfolding n p nm pa tm by simp
qed

lemma scanLoop_children_partial:
  assumes "scanLoop e s rel absdir list dir = (evs, Inr d)"
    and "\<forall>c\<in>set (directories dir). isPartial c \<and> lastScanned c = 0"
  shows "\<forall>c\<in>set (directories d). isPartial c \<and> lastScanned c = 0"
  using assms
  by (rule scanLoop_invariant) (auto simp: setters)

text \<open>
  Claim C8. Every child snapshot in the \<open>directories\<close> list of a snapshot that
  \<open>scanDirectory\<close> returns is partial: \<open>isPartial = true\<close> and \<open>lastScanned = 0\<close>.
\<close>

theorem scanDirectory_children_partial:
  assumes "scanDirectory e s rel = (evs, Inr d)"
  shows "\<forall>c\<in>set (directories d). isPartial c \<and> lastScanned c = 0"
  using assms
proof (cases rule: scanDirectory_Inr)
  case (empty st)
  then show ?thesis by (simp add: newDirectory_def)
next
  case (listed st list t d')
  have "\<forall>c\<in>set (directories d'). isPartial c \<and> lastScanned c = 0"
    using listed(4) by (rule scanLoop_children_partial) (simp add: newDirectory_def)
  then show ?thesis using listed(6) by (simp add: setters)
qed

lemma albumEnv_scan_root:
  "scanDirectory albumEnv emptySettings ''/'' =
     ([Stat ''/g/'', Readdir ''/g/'', Stat ''/g/a'', Stat ''/g/a'', Readdir ''/g/a'',
       Stat ''/g/a/b'', Stat ''/g/a/p.jpg'', LoadPhotoMetadata ''/g/a/p.jpg'',
       Stat ''/g/v.mp4'', LoadVideoMetadata ''/g/v.mp4'', Stat ''/g/r.jpg'',
       LoadPhotoMetadata ''/g/r.jpg''],
      Inr (DirectoryDTO None None ''.'' ''./'' 20 1000
        [DirectoryDTO None None ''a'' ''./'' 20 0 [] True 1 0 1
          (Some \<lparr>mname = ''p.jpg'', mdirectory = Some \<lparr>dpath = ''./'', dname = ''a''\<rparr>,
                 metadata = Some 7\<rparr>)
          False [\<lparr>mname = ''p.jpg'', mdirectory = None, metadata = Some 7\<rparr>] []]
        False 2 1 1
        (Some \<lparr>mname = ''r.jpg'', mdirectory = Some \<lparr>dpath = ''./'', dname = ''.''\<rparr>,
               metadata = Some 7\<rparr>)
        False
        [\<lparr>mname = ''v.mp4'', mdirectory = None, metadata = Some 8\<rparr>,
         \<lparr>mname = ''r.jpg'', mdirectory = None, metadata = Some 7\<rparr>]
        []))"
  by code_simp

theorem scanDirectory_children_partial_witness:
  "\<exists>evs d c. scanDirectory albumEnv emptySettings ''/'' = (evs, Inr d)
      \<and> directories d = [c] \<and> isPartial c \<and> lastScanned c = 0"
proof -
  obtain evs d where run: "scanDirectory albumEnv emptySettings ''/'' = (evs, Inr d)"
    and dirs: "length (directories d) = 1"
    using albumEnv_scan_root by simp
  from dirs obtain c where c: "directories d = [c]"
    by (cases "directories d") auto
  have "\<forall>c\<in>set (directories d). isPartial c \<and> lastScanned c = 0"
    using run by (rule scanDirectory_children_partial)
  with c have "isPartial c \<and> lastScanned c = 0" by simp
  with run c show ?thesis by blast
qed

section \<open>The metadata-free variant\<close>

text \<open>
  Claim C10. \<open>scanDirectoryNoMetadata\<close> writes \<open>noMetadata = true\<close> into the settings object
  the caller passed (the object at the caller's reference, not a copy): after the call the
  store holds the changed object at that reference, the scan itself ran with it, and the
  store is unchanged only if \<open>noMetadata\<close> was \<open>true\<close> already.
\<close>

theorem scanDirectoryNoMetadata_mutates_settings:
  "fst (scanDirectoryNoMetadata e h rel r) = h(r := (h r)\<lparr>noMetadata := Some True\<rparr>)
   \<and> noMetadata (fst (scanDirectoryNoMetadata e h rel r) r) = Some True
   \<and> snd (scanDirectoryNoMetadata e h rel r)
       = scanDirectory e (fst (scanDirectoryNoMetadata e h rel r) r) rel
   \<and> ((fst (scanDirectoryNoMetadata e h rel r) = h) = (noMetadata (h r) = Some True))"
proof -
  have "(h r = (h r)\<lparr>noMetadata := Some True\<rparr>) = (noMetadata (h r) = Some True)"
    by (cases "h r") auto
  then show ?thesis
    by (simp add: scanDirectoryNoMetadata_def Let_def fun_upd_idem_iff)
qed

section \<open>Properties of the exclusion filter\<close>

lemma if_True_else: "(if P then True else Q) = (P \<or> Q)"
  by simp

lemma matchExcludeFolder_Cons:
  "matchExcludeFolder (r # rules) n relName absName \<longleftrightarrow>
     folderRuleMatches r n relName absName \<or> matchExcludeFolder rules n relName absName"
  unfolding folderRuleMatches_def matchExcludeFolder.simps
  by (cases "r \<noteq> [] \<and> hd r = CHR ''/''"; cases "CHR ''/'' \<in> set r") (simp_all only: if_True if_False simp_thms if_True_else)

lemma matchExcludeFolder_iff:
  "matchExcludeFolder rules n relName absName \<longleftrightarrow>
     (\<exists>r\<in>set rules. folderRuleMatches r n relName absName)"
proof (induction rules)
  case Nil
  show ?case by simp
next
  case (Cons r rules)
  show ?case unfolding matchExcludeFolder_Cons Cons.IH by simp
qed

lemma probeExcludeFile_iff:
  "snd (probeExcludeFile e markers absName) \<longleftrightarrow>
     (\<exists>m\<in>set markers. fsAccess e (path_join [absName, m]))"
  by (induction markers) (auto simp: Let_def emit_def)

lemma probeExcludeFile_events:
  "set (fst (probeExcludeFile e markers absName))
     \<subseteq> (\<lambda>m. Access (path_join [absName, m])) ` set markers"
  by (induction markers) (auto simp: Let_def emit_def)

text \<open>
  Claim C7 (as amended). \<open>excludeDir\<close> implements three shapes of name rule, each with
  whole-string comparison: a rule beginning with \<open>/\<close> excludes only the directory whose
  absolute path equals the rule; a rule containing but not beginning with \<open>/\<close> excludes only
  the directory whose path relative to the library root equals the rule after
  \<open>path.normalize\<close> has been applied to the rule; a bare-name rule excludes every directory
  whose leaf name equals the rule. Apart from the name rules only a marker file excludes a
  directory. For the rules \<open>/abs/secret\<close>, \<open>rel/sub\<close>, \<open>bare\<close> (and no marker files) a
  directory is excluded exactly when it is named \<open>bare\<close>, or its relative path is \<open>rel/sub\<close>,
  or its absolute path is \<open>/abs/secret\<close>.
\<close>

theorem excludeDir_name_rules:
  "(snd (excludeDir e n rel absdir) \<longleftrightarrow>
      (\<exists>r\<in>set (excludeFolderList e).
         if r \<noteq> [] \<and> hd r = CHR ''/''
         then r = path_normalize (path_join [absdir, n])
         else if CHR ''/'' \<in> set r
         then path_normalize r = path_normalize (path_join [rel, n])
         else r = n)
      \<or> (\<exists>m\<in>set (excludeFileList e).
            fsAccess e (path_join [path_normalize (path_join [absdir, n]), m])))
   \<and> (excludeFolderList e = [''/abs/secret'', ''rel/sub'', ''bare''] \<and> excludeFileList e = []
        \<longrightarrow> (snd (excludeDir e n rel absdir) \<longleftrightarrow>
               path_normalize (path_join [absdir, n]) = ''/abs/secret''
               \<or> path_normalize (path_join [rel, n]) = ''rel/sub''
               \<or> n = ''bare''))"
proof -
  have general: "snd (excludeDir e n rel absdir) \<longleftrightarrow>
      (\<exists>r\<in>set (excludeFolderList e).
         if r \<noteq> [] \<and> hd r = CHR ''/''
         then r = path_normalize (path_join [absdir, n])
         else if CHR ''/'' \<in> set r
         then path_normalize r = path_normalize (path_join [rel, n])
         else r = n)
      \<or> (\<exists>m\<in>set (excludeFileList e).
            fsAccess e (path_join [path_normalize (path_join [absdir, n]), m]))"
    unfolding folderRuleMatches_def [symmetric]
    by (simp add: excludeDir_def Let_def matchExcludeFolder_iff probeExcludeFile_iff)
  have canon: "path_normalize ''rel/sub'' = ''rel/sub''"
    by (simp add: path_normalize_def)
  have example: "snd (excludeDir e n rel absdir) \<longleftrightarrow>
               path_normalize (path_join [absdir, n]) = ''/abs/secret''
               \<or> path_normalize (path_join [rel, n]) = ''rel/sub''
               \<or> n = ''bare''"
    if "excludeFolderList e = [''/abs/secret'', ''rel/sub'', ''bare'']" "excludeFileList e = []"
    unfolding general using that canon by auto
  from general example show ?thesis by blast
qed

theorem excludeDir_name_rules_witness:
  "excludeFolderList rulesEnv = [''/abs/secret'', ''rel/sub'', ''bare'']
   \<and> excludeFileList rulesEnv = []
   \<and> snd (excludeDir rulesEnv ''bare'' ''x/y'' ''/g/x/y'')
   \<and> snd (excludeDir rulesEnv ''sub'' ''rel'' ''/g/rel'')
   \<and> \<not> snd (excludeDir rulesEnv ''sub'' ''other/rel'' ''/g/other/rel'')
   \<and> snd (excludeDir rulesEnv ''secret'' ''abs'' ''/abs'')
   \<and> \<not> snd (excludeDir rulesEnv ''secret'' ''abs'' ''/g/abs'')"
proof -
  have rules: "excludeFolderList rulesEnv = [''/abs/secret'', ''rel/sub'', ''bare'']
      \<and> excludeFileList rulesEnv = []"
    by (simp add: rulesEnv_def baseEnv_def)
  have ex: "snd (excludeDir rulesEnv n rel absdir) \<longleftrightarrow>
               path_normalize (path_join [absdir, n]) = ''/abs/secret''
               \<or> path_normalize (path_join [rel, n]) = ''rel/sub''
               \<or> n = ''bare''" for n rel absdir
    using excludeDir_name_rules [of rulesEnv n rel absdir] rules by blast
  show ?thesis
    using rules by (simp add: ex path_join_def path_normalize_def)
qed

text \<open>
  Claim C7 as stated fails for a rule that is not in canonical form: the rule \<open>./private\<close>
  contains a separator and does not begin with one, and it excludes the directory whose
  relative path is \<open>private\<close>, which is not the rule.
\<close>

theorem excludeDir_normalizes_rule:
  "excludeFolderList privateEnv = [''./private''] \<and> excludeFileList privateEnv = []
   \<and> snd (excludeDir privateEnv ''private'' ''./'' ''/g/'')
   \<and> path_normalize (path_join [''./'', ''private'']) = ''private''
   \<and> ''private'' \<noteq> ''./private''"
  by (simp add: privateEnv_def baseEnv_def excludeDir_def path_join_def path_normalize_def)

lemma scanEntry_frame:
  assumes "scanEntry e s rel absdir entry dir = (evs, r)" and "r = Continue d \<or> r = Break d"
  shows "path d = path dir \<and> name d = name dir \<and> validCover d = validCover dir
         \<and> set (media dir) \<subseteq> set (media d) \<and> (cover dir \<noteq> None \<longrightarrow> cover d = cover dir)"
  using assms
  by (rule scanEntry_invariant) (auto simp: setters)

lemma scanLoop_frame:
  assumes "scanLoop e s rel absdir list dir = (evs, Inr d)"
  shows "path d = path dir \<and> name d = name dir \<and> validCover d = validCover dir
         \<and> set (media dir) \<subseteq> set (media d) \<and> (cover dir \<noteq> None \<longrightarrow> cover d = cover dir)"
  using assms
  by (rule scanLoop_invariant) (auto simp: setters)

lemma scanEntry_photo:
  assumes "fsStat e (path_normalize (path_join [absdir, entry])) = Some st"
    and "\<not> isDirectory st" and "isPhoto e (path_normalize (path_join [absdir, entry]))"
    and "noPhoto s \<noteq> Some True"
    and "scanEntry e s rel absdir entry dir = (evs, r)" and "r = Continue d \<or> r = Break d"
  shows "\<exists>md. (if noMetadata s = Some True then md = None
               else \<exists>m. md = Some m
                 \<and> loadPhotoMetadata e (path_normalize (path_join [absdir, entry])) = Inr m)
          \<and> media d = media dir @ [\<lparr>mname = entry, mdirectory = None, metadata = md\<rparr>]
          \<and> cover d = (if cover dir = None
                       then Some \<lparr>mname = entry,
                              mdirectory = Some \<lparr>dpath = path dir, dname = name dir\<rparr>,
                              metadata = md\<rparr>
                       else cover dir)"
  using assms
  by (cases "loadPhotoMetadata e (path_normalize (path_join [absdir, entry]))")
     (auto simp: scanEntry.simps Let_def clone_def setters split: if_splits)

lemma scanEntry_not_photo:
  assumes "\<not> isPhotoEntry e absdir entry"
    and "scanEntry e s rel absdir entry dir = (evs, r)" and "r = Continue d \<or> r = Break d"
  shows "cover d = cover dir \<and> r = Continue d"
  using assms
  by (auto simp: isPhotoEntry_def scanEntry.simps Let_def emit_eq_iff setters
        split: option.splits if_splits prod.splits sum.splits)

lemma photoEntries_Cons:
  "photoEntries e absdir (entry # rest) =
     (if isPhotoEntry e absdir entry then entry # photoEntries e absdir rest
      else photoEntries e absdir rest)"
  by (simp add: photoEntries_def)

lemma scanLoop_cover:
  assumes "scanLoop e s rel absdir list dir = (evs, Inr d)"
    and "noPhoto s \<noteq> Some True" and "cover dir = None"
  shows "case photoEntries e absdir list of
           [] \<Rightarrow> cover d = None
         | f # _ \<Rightarrow>
             \<exists>md. (if noMetadata s = Some True then md = None
                   else \<exists>m. md = Some m
                     \<and> loadPhotoMetadata e (path_normalize (path_join [absdir, f])) = Inr m)
               \<and> cover d = Some \<lparr>mname = f,
                              mdirectory = Some \<lparr>dpath = path dir, dname = name dir\<rparr>,
                              metadata = md\<rparr>
               \<and> \<lparr>mname = f, mdirectory = None, metadata = md\<rparr> \<in> set (media d)"
  using assms
proof (induction list arbitrary: dir evs)
  case Nil
  then show ?case by (simp add: scanLoop.simps photoEntries_def)
next
  case (Cons entry rest)
  obtain evs1 r where step: "scanEntry e s rel absdir entry dir = (evs1, r)"
    by (cases "scanEntry e s rel absdir entry dir")
  from Cons.prems(1) step obtain d' where r: "r = Continue d' \<or> r = Break d'"
    by (cases r) (auto simp: scanLoop.simps)
  have after: "path d = path d' \<and> name d = name d' \<and> set (media d') \<subseteq> set (media d)
      \<and> (cover d' \<noteq> None \<longrightarrow> cover d = cover d')"
  proof (cases r)
    case (Continue d'')
    with r have [simp]: "d'' = d'" by simp
    from Cons.prems(1) step Continue obtain t where "scanLoop e s rel absdir rest d' = (t, Inr d)"
      by (auto simp: scanLoop.simps emit_eq_iff)
    then show ?thesis using scanLoop_frame by blast
  next
    case (Break d'')
    with r Cons.prems(1) step show ?thesis by (auto simp: scanLoop.simps)
  next
    case (Throw err)
    with r show ?thesis by simp
  qed
  show ?case
  proof (cases "isPhotoEntry e absdir entry")
    case True
    then obtain st where st: "fsStat e (path_normalize (path_join [absdir, entry])) = Some st"
        "\<not> isDirectory st" "isPhoto e (path_normalize (path_join [absdir, entry]))"
      by (auto simp: isPhotoEntry_def split: option.splits if_splits)
    from scanEntry_photo [OF st Cons.prems(2) step r] Cons.prems(3)
    obtain md where md: "if noMetadata s = Some True then md = None
               else \<exists>m. md = Some m
                 \<and> loadPhotoMetadata e (path_normalize (path_join [absdir, entry])) = Inr m"
      and med: "media d' = media dir @ [\<lparr>mname = entry, mdirectory = None, metadata = md\<rparr>]"
      and cov: "cover d' = Some \<lparr>mname = entry,
                              mdirectory = Some \<lparr>dpath = path dir, dname = name dir\<rparr>,
                              metadata = md\<rparr>"
      by auto
    have "cover d = cover d'" using after cov by simp
    moreover have "\<lparr>mname = entry, mdirectory = None, metadata = md\<rparr> \<in> set (media d)"
      using after med by auto
    ultimately show ?thesis
      using True md cov by (auto simp: photoEntries_Cons)
  next
    case False
    from scanEntry_not_photo [OF False step r] have same: "cover d' = cover dir"
      and cont: "r = Continue d'" by simp_all
    from Cons.prems(1) step cont obtain t where rest: "scanLoop e s rel absdir rest d' = (t, Inr d)"
      by (auto simp: scanLoop.simps emit_eq_iff)
    have fr: "path d' = path dir" "name d' = name dir"
      using scanEntry_frame [OF step r] by simp_all
    have "cover d' = None" using same Cons.prems(3) by simp
    from Cons.IH [OF rest Cons.prems(2) this] show ?thesis
      unfolding fr using False by (simp add: photoEntries_Cons)
  qed
qed

text \<open>
  Claim C4 (as amended). In every scan in which photos are not disabled, the first photo
  entry in listing order becomes the snapshot's cover: it is cloned into \<open>cover\<close> with its
  \<open>directory\<close> back-reference set to this snapshot's path and name, and the entry itself
  (with no back-reference) is also in the media list; a directory without photo entries
  has no cover, so a video is never the cover. \<open>validCover\<close> stays \<open>false\<close>: the scanner
  never marks a cover valid.
\<close>

theorem scanDirectory_first_photo_is_cover:
  fixes e :: "'m env"
  assumes "scanDirectory e s rel = (evs, Inr d)"
    and "noPhoto s \<noteq> Some True"
    and "fsReaddir e (path_join [imageFolder e, normalizeDirPath rel]) = Some list"
  shows "\<not> validCover d \<and>
    (case photoEntries e (path_join [imageFolder e, normalizeDirPath rel]) list of
       [] \<Rightarrow> cover d = None
     | f # _ \<Rightarrow>
         \<exists>md. (if noMetadata s = Some True then md = None
               else \<exists>m. md = Some m
                 \<and> loadPhotoMetadata e
                      (path_normalize (path_join [path_join [imageFolder e, normalizeDirPath rel], f]))
                    = Inr m)
           \<and> cover d = Some \<lparr>mname = f,
                          mdirectory = Some \<lparr>dpath = path d, dname = name d\<rparr>,
                          metadata = md\<rparr>
           \<and> \<lparr>mname = f, mdirectory = None, metadata = md\<rparr> \<in> set (media d))"
  using assms(1)
proof (cases rule: scanDirectory_Inr)
  case (empty st)
  with assms(2) show ?thesis by simp
next
  case (listed st list' t d')
  let ?dir = "newDirectory (dirName (normalizeDirPath rel))
      (pathFromRelativeDirName (normalizeDirPath rel)) (calcLastModified st) (dateNow e)
      :: 'm DirectoryDTO"
  have [simp]: "list' = list" using listed(3) assms(3) by simp
  have fr: "path d' = path ?dir \<and> name d' = name ?dir \<and> validCover d' = validCover ?dir"
    using scanLoop_frame [OF listed(4)] by blast
  have d: "path d = path d'" "name d = name d'" "validCover d = validCover d'"
    "cover d = cover d'" "media d = media d'"
    using listed(6) by (simp_all add: setters)
  have nd: "cover ?dir = None" "\<not> validCover ?dir" by (simp_all add: newDirectory_def)
  have vc: "\<not> validCover d" using fr d nd by simp
  have pn: "path ?dir = path d" "name ?dir = name d" using fr d by simp_all
  have cm: "cover d' = cover d" "media d' = media d" using d by simp_all
  from scanLoop_cover [OF listed(4) assms(2) nd(1)] vc show ?thesis
    unfolding pn cm by simp
qed

theorem scanDirectory_first_photo_is_cover_witness:
  "\<exists>evs d. scanDirectory albumEnv emptySettings ''/'' = (evs, Inr d)
     \<and> noPhoto emptySettings \<noteq> Some True
     \<and> fsReaddir albumEnv (path_join [imageFolder albumEnv, normalizeDirPath ''/''])
         = Some [''a'', ''v.mp4'', ''r.jpg'']
     \<and> photoEntries albumEnv (path_join [imageFolder albumEnv, normalizeDirPath ''/''])
          [''a'', ''v.mp4'', ''r.jpg''] = [''r.jpg'']
     \<and> \<not> validCover d
     \<and> cover d = Some \<lparr>mname = ''r.jpg'',
                    mdirectory = Some \<lparr>dpath = path d, dname = name d\<rparr>, metadata = Some 7\<rparr>
     \<and> \<lparr>mname = ''r.jpg'', mdirectory = None, metadata = Some 7\<rparr> \<in> set (media d)"
proof -
  obtain evs d where run: "scanDirectory albumEnv emptySettings ''/'' = (evs, Inr d)"
    using albumEnv_scan_root by simp
  have np: "noPhoto emptySettings \<noteq> Some True" by (simp add: emptySettings_def)
  have p: "path_join [imageFolder albumEnv, normalizeDirPath ''/''] = ''/g/''"
    by (simp add: albumEnv_def baseEnv_def normalizeDirPath_def path_join_def path_normalize_def)
  have ls: "fsReaddir albumEnv (path_join [imageFolder albumEnv, normalizeDirPath ''/''])
      = Some [''a'', ''v.mp4'', ''r.jpg'']"
    unfolding p by (simp add: albumEnv_def baseEnv_def)
  have ph: "photoEntries albumEnv (path_join [imageFolder albumEnv, normalizeDirPath ''/''])
      [''a'', ''v.mp4'', ''r.jpg''] = [''r.jpg'']"
    unfolding p by code_simp
  have ld: "loadPhotoMetadata albumEnv x = Inr 7" for x
    by (simp add: albumEnv_def baseEnv_def)
  have nm: "noMetadata emptySettings \<noteq> Some True" by (simp add: emptySettings_def)
  from scanDirectory_first_photo_is_cover [OF run np ls]
  have "\<not> validCover d
     \<and> cover d = Some \<lparr>mname = ''r.jpg'',
                    mdirectory = Some \<lparr>dpath = path d, dname = name d\<rparr>, metadata = Some 7\<rparr>
     \<and> \<lparr>mname = ''r.jpg'', mdirectory = None, metadata = Some 7\<rparr> \<in> set (media d)"
    unfolding ph using nm ld by auto
  with run np ls ph show ?thesis by blast
qed

text \<open>
  Claim C4 as stated fails where the first media entry is a video: in the library root the
  listing is \<open>a\<close>, \<open>v.mp4\<close>, \<open>r.jpg\<close>, the media list starts with the video, the cover is the
  photo, and the cover is not marked valid.
\<close>

theorem scanDirectory_video_first_not_cover:
  "\<exists>evs d. scanDirectory albumEnv emptySettings ''/'' = (evs, Inr d)
     \<and> map mname (media d) = [''v.mp4'', ''r.jpg'']
     \<and> map_option mname (cover d) = Some ''r.jpg''
     \<and> \<not> validCover d"
  using albumEnv_scan_root by simp

lemma scanEntry_coverOnly:
  assumes "coverOnly s = Some True"
    and "scanEntry e s rel absdir entry dir = (evs, r)" and "r = Continue d \<or> r = Break d"
  shows "directories d = directories dir
         \<and> (r = Continue d \<longrightarrow> media d = media dir \<and> cover d = cover dir)
         \<and> (r = Break d \<longrightarrow> isPhotoEntry e absdir entry)"
  using assms
  by (auto simp: isPhotoEntry_def scanEntry.simps Let_def emit_eq_iff setters
        split: option.splits if_splits prod.splits sum.splits)

lemma scanEntry_photo_coverOnly:
  assumes "coverOnly s = Some True" and "isPhotoEntry e absdir entry" and "noPhoto s \<noteq> Some True"
    and "scanEntry e s rel absdir entry dir = (evs, r)"
  shows "\<not> (\<exists>d. r = Continue d)"
  using assms
  by (auto simp: isPhotoEntry_def scanEntry.simps Let_def emit_eq_iff
        split: option.splits if_splits prod.splits sum.splits)

lemma scanLoop_coverOnly:
  assumes "scanLoop e s rel absdir list dir = (evs, Inr d)"
    and "coverOnly s = Some True" and "noPhoto s \<noteq> Some True"
    and "cover dir = None" and "media dir = []" and "directories dir = []"
  shows "directories d = [] \<and>
    (case photoEntries e absdir list of
       [] \<Rightarrow> cover d = None \<and> media d = []
     | f # _ \<Rightarrow>
         \<exists>md. cover d = Some \<lparr>mname = f,
                          mdirectory = Some \<lparr>dpath = path dir, dname = name dir\<rparr>,
                          metadata = md\<rparr>
           \<and> media d = [\<lparr>mname = f, mdirectory = None, metadata = md\<rparr>])"
  using assms(1,4,5,6)
proof (induction list arbitrary: dir evs)
  case Nil
  then show ?case by (simp add: scanLoop.simps photoEntries_def)
next
  case (Cons entry rest)
  obtain evs1 r where step: "scanEntry e s rel absdir entry dir = (evs1, r)"
    by (cases "scanEntry e s rel absdir entry dir")
  from Cons.prems(1) step obtain d' where r: "r = Continue d' \<or> r = Break d'"
    by (cases r) (auto simp: scanLoop.simps)
  note co = scanEntry_coverOnly [OF assms(2) step r]
  show ?case
  proof (cases "isPhotoEntry e absdir entry")
    case True
    then obtain st where st: "fsStat e (path_normalize (path_join [absdir, entry])) = Some st"
        "\<not> isDirectory st" "isPhoto e (path_normalize (path_join [absdir, entry]))"
      by (auto simp: isPhotoEntry_def split: option.splits if_splits)
    from scanEntry_photo_coverOnly [OF assms(2) True assms(3) step] r
    have brk: "r = Break d'" by blast
    with Cons.prems(1) step have [simp]: "d' = d" by (simp add: scanLoop.simps)
    from scanEntry_photo [OF st assms(3) step r] Cons.prems(2,3)
    obtain md where "media d = [\<lparr>mname = entry, mdirectory = None, metadata = md\<rparr>]"
      "cover d = Some \<lparr>mname = entry,
                   mdirectory = Some \<lparr>dpath = path dir, dname = name dir\<rparr>, metadata = md\<rparr>"
      by auto
    then show ?thesis
      using True co Cons.prems(4) by (simp add: photoEntries_Cons)
  next
    case False
    from co False have cont: "r = Continue d'" using r by blast
    with co have same: "media d' = media dir" "cover d' = cover dir"
      "directories d' = directories dir" by simp_all
    from Cons.prems(1) step cont obtain t where rest: "scanLoop e s rel absdir rest d' = (t, Inr d)"
      by (auto simp: scanLoop.simps emit_eq_iff)
    have fr: "path d' = path dir" "name d' = name dir"
      using scanEntry_frame [OF step r] by simp_all
    from Cons.IH [OF rest] same Cons.prems(2,3,4) show ?thesis
      unfolding fr using False by (simp add: photoEntries_Cons)
  qed
qed

lemma scanDirectory_coverOnly:
  fixes e :: "'m env"
  assumes "scanDirectory e coverOnlySettings p = (evs, Inr c)"
  shows "\<exists>l. fsReaddir e (path_join [imageFolder e, normalizeDirPath p]) = Some l \<and>
    directories c = [] \<and>
    (case photoEntries e (path_join [imageFolder e, normalizeDirPath p]) l of
       [] \<Rightarrow> cover c = None \<and> media c = []
     | f # _ \<Rightarrow>
         \<exists>md. cover c = Some \<lparr>mname = f,
                          mdirectory = Some \<lparr>dpath = path c, dname = name c\<rparr>,
                          metadata = md\<rparr>
           \<and> media c = [\<lparr>mname = f, mdirectory = None, metadata = md\<rparr>])"
  using assms
proof (cases rule: scanDirectory_Inr)
  case (empty st)
  then show ?thesis by (simp add: coverOnlySettings_def emptySettings_def)
next
  case (listed st l t d')
  let ?dir = "newDirectory (dirName (normalizeDirPath p))
      (pathFromRelativeDirName (normalizeDirPath p)) (calcLastModified st) (dateNow e)
      :: 'm DirectoryDTO"
  have s: "coverOnly coverOnlySettings = Some True" "noPhoto coverOnlySettings \<noteq> Some True"
    by (simp_all add: coverOnlySettings_def emptySettings_def)
  have nd: "cover ?dir = None" "media ?dir = []" "directories ?dir = []"
    by (simp_all add: newDirectory_def)
  have fr: "path ?dir = path d'" "name ?dir = name d'"
    using scanLoop_frame [OF listed(4)] by simp_all
  have c: "path d' = path c" "name d' = name c" "cover d' = cover c" "media d' = media c"
    "directories d' = directories c"
    using listed(6) by (simp_all add: setters)
  from scanLoop_coverOnly [OF listed(4) s nd] listed(3) show ?thesis
    unfolding fr c by simp
qed

lemma scanLoop_only_directories:
  fixes e :: "'m env"
  assumes run: "scanLoop e s rel absdir list dir = (evs, Inr d)"
    and onlydirs: "\<forall>f\<in>set list. \<exists>st.
        fsStat e (path_normalize (path_join [absdir, f])) = Some st \<and> isDirectory st"
    and init: "cover dir = None" "media dir = []" "directories dir = []"
  shows "cover d = None \<and> media d = [] \<and>
    (\<forall>c\<in>set (directories d). \<exists>f\<in>set list. \<exists>evs' c0.
        scanDirectory e coverOnlySettings (path_join [rel, f]) = (evs', Inr c0)
        \<and> c = set_isPartial True (set_lastScanned 0 c0))"
  using run
proof (rule scanLoop_invariant)
  show "cover dir = None \<and> media dir = [] \<and>
    (\<forall>c\<in>set (directories dir). \<exists>f\<in>set list. \<exists>evs' c0.
        scanDirectory e coverOnlySettings (path_join [rel, f]) = (evs', Inr c0)
        \<and> c = set_isPartial True (set_lastScanned 0 c0))"
    using init by simp
qed (use onlydirs in \<open>auto simp: setters\<close>)

text \<open>
  Claim C1 (as amended). In a scan of a directory that contains only subdirectories, the
  returned snapshot has no cover and no media, and every child snapshot is partial
  (\<open>isPartial = true\<close>, \<open>lastScanned = 0\<close>) and was produced by one \<open>coverOnly\<close> scan of a
  direct subdirectory. That cover probe does not recurse: the child snapshot has no children
  of its own, and its cover is the first photo entry directly inside that subdirectory
  (cloned, with the child's path and name as back-reference, and alone in the child's media
  list), or \<open>null\<close> when the subdirectory has no photo entry of its own. So a photo at depth
  2 or more surfaces nowhere, and no cover reaches the scan root.
\<close>

theorem scanDirectory_cover_probe_one_level:
  fixes e :: "'m env"
  assumes "scanDirectory e s rel = (evs, Inr d)"
    and "fsReaddir e (path_join [imageFolder e, normalizeDirPath rel]) = Some list"
    and "\<forall>f\<in>set list. \<exists>st.
        fsStat e (path_normalize (path_join [path_join [imageFolder e, normalizeDirPath rel], f]))
          = Some st \<and> isDirectory st"
  shows "cover d = None \<and> media d = [] \<and>
    (\<forall>c\<in>set (directories d).
       isPartial c \<and> lastScanned c = 0 \<and> directories c = [] \<and>
       (\<exists>f\<in>set list. \<exists>l.
          fsReaddir e (path_join [imageFolder e,
              normalizeDirPath (path_join [normalizeDirPath rel, f])]) = Some l \<and>
          (case photoEntries e (path_join [imageFolder e,
                   normalizeDirPath (path_join [normalizeDirPath rel, f])]) l of
             [] \<Rightarrow> cover c = None \<and> media c = []
           | p # _ \<Rightarrow>
               \<exists>md. cover c = Some \<lparr>mname = p,
                                mdirectory = Some \<lparr>dpath = path c, dname = name c\<rparr>,
                                metadata = md\<rparr>
                 \<and> media c = [\<lparr>mname = p, mdirectory = None, metadata = md\<rparr>])))"
  using assms(1)
proof (cases rule: scanDirectory_Inr)
  case (empty st)
  then show ?thesis by (simp add: newDirectory_def)
next
  case (listed st list' t d')
  let ?dir = "newDirectory (dirName (normalizeDirPath rel))
      (pathFromRelativeDirName (normalizeDirPath rel)) (calcLastModified st) (dateNow e)
      :: 'm DirectoryDTO"
  have [simp]: "list' = list" using listed(3) assms(2) by simp
  have nd: "cover ?dir = None" "media ?dir = []" "directories ?dir = []"
    by (simp_all add: newDirectory_def)
  have loop: "cover d' = None \<and> media d' = [] \<and>
    (\<forall>c\<in>set (directories d'). \<exists>f\<in>set list. \<exists>evs' c0.
        scanDirectory e coverOnlySettings (path_join [normalizeDirPath rel, f]) = (evs', Inr c0)
        \<and> c = set_isPartial True (set_lastScanned 0 c0))"
    using listed(4) assms(3) nd by (intro scanLoop_only_directories) simp_all
  have d: "cover d = cover d'" "media d = media d'" "directories d = directories d'"
    using listed(6) by (simp_all add: setters)
  have child: "isPartial c \<and> lastScanned c = 0 \<and> directories c = [] \<and>
       (\<exists>f\<in>set list. \<exists>l.
          fsReaddir e (path_join [imageFolder e,
              normalizeDirPath (path_join [normalizeDirPath rel, f])]) = Some l \<and>
          (case photoEntries e (path_join [imageFolder e,
                   normalizeDirPath (path_join [normalizeDirPath rel, f])]) l of
             [] \<Rightarrow> cover c = None \<and> media c = []
           | p # _ \<Rightarrow>
               \<exists>md. cover c = Some \<lparr>mname = p,
                                mdirectory = Some \<lparr>dpath = path c, dname = name c\<rparr>,
                                metadata = md\<rparr>
                 \<and> media c = [\<lparr>mname = p, mdirectory = None, metadata = md\<rparr>]))"
    if "c \<in> set (directories d)" for c
  proof -
    from that loop d obtain f evs' c0 where f: "f \<in> set list"
      and c0: "scanDirectory e coverOnlySettings (path_join [normalizeDirPath rel, f]) = (evs', Inr c0)"
      and c: "c = set_isPartial True (set_lastScanned 0 c0)"
      by auto
    have part: "isPartial c" "lastScanned c = 0" using c by (simp_all add: setters)
    have sel: "directories c0 = directories c" "cover c0 = cover c" "media c0 = media c"
      "path c0 = path c" "name c0 = name c"
      using c by (simp_all add: setters)
    from scanDirectory_coverOnly [OF c0] f part show ?thesis
      unfolding sel by blast
  qed
  from loop d child show ?thesis by simp
qed

lemma coverEnv_scan_root:
  "scanDirectory coverEnv emptySettings ''/'' =
     ([Stat ''/g/'', Readdir ''/g/'', Stat ''/g/a'', Stat ''/g/a'', Readdir ''/g/a'',
       Stat ''/g/a/b'', Stat ''/g/a/p.jpg'', LoadPhotoMetadata ''/g/a/p.jpg''],
      Inr (DirectoryDTO None None ''.'' ''./'' 20 1000
        [DirectoryDTO None None ''a'' ''./'' 20 0 [] True 1 0 1
          (Some \<lparr>mname = ''p.jpg'', mdirectory = Some \<lparr>dpath = ''./'', dname = ''a''\<rparr>,
                 metadata = Some 7\<rparr>)
          False [\<lparr>mname = ''p.jpg'', mdirectory = None, metadata = Some 7\<rparr>] []]
        False 0 0 1 None False [] []))"
  by code_simp

theorem scanDirectory_cover_probe_one_level_witness:
  "\<exists>evs d c. scanDirectory coverEnv emptySettings ''/'' = (evs, Inr d)
     \<and> fsReaddir coverEnv (path_join [imageFolder coverEnv, normalizeDirPath ''/'']) = Some [''a'']
     \<and> fsStat coverEnv (path_normalize
          (path_join [path_join [imageFolder coverEnv, normalizeDirPath ''/''], ''a''])) = Some dirStat
     \<and> isDirectory dirStat
     \<and> cover d = None \<and> media d = [] \<and> directories d = [c]
     \<and> isPartial c \<and> lastScanned c = 0 \<and> directories c = []
     \<and> fsReaddir coverEnv (path_join [imageFolder coverEnv,
            normalizeDirPath (path_join [normalizeDirPath ''/'', ''a''])]) = Some [''b'', ''p.jpg'']
     \<and> photoEntries coverEnv (path_join [imageFolder coverEnv,
            normalizeDirPath (path_join [normalizeDirPath ''/'', ''a''])]) [''b'', ''p.jpg'']
         = [''p.jpg'']
     \<and> map_option mname (cover c) = Some ''p.jpg'' \<and> map mname (media c) = [''p.jpg'']"
proof -
  obtain evs d c where run: "scanDirectory coverEnv emptySettings ''/'' = (evs, Inr d)"
    and dirs: "directories d = [c]"
    using coverEnv_scan_root by simp
  have p: "path_join [imageFolder coverEnv, normalizeDirPath ''/''] = ''/g/''"
    by (simp add: coverEnv_def baseEnv_def normalizeDirPath_def path_join_def path_normalize_def)
  have pa: "path_normalize (path_join [''/g/'', ''a'']) = ''/g/a''"
    by (simp add: path_join_def path_normalize_def)
  have pc: "path_join [imageFolder coverEnv,
      normalizeDirPath (path_join [normalizeDirPath ''/'', ''a''])] = ''/g/a''"
    by (simp add: coverEnv_def baseEnv_def normalizeDirPath_def path_join_def path_normalize_def)
  have ls: "fsReaddir coverEnv (path_join [imageFolder coverEnv, normalizeDirPath ''/''])
      = Some [''a'']"
    unfolding p by (simp add: coverEnv_def baseEnv_def)
  have st: "fsStat coverEnv (path_normalize
      (path_join [path_join [imageFolder coverEnv, normalizeDirPath ''/''], ''a''])) = Some dirStat"
    unfolding p pa by (simp add: coverEnv_def baseEnv_def statOf_def)
  have isd: "isDirectory dirStat" by (simp add: dirStat_def)
  have only: "\<forall>f\<in>set [''a'']. \<exists>st. fsStat coverEnv (path_normalize
      (path_join [path_join [imageFolder coverEnv, normalizeDirPath ''/''], f])) = Some st
      \<and> isDirectory st"
    using st isd by simp
  have lsc: "fsReaddir coverEnv (path_join [imageFolder coverEnv,
      normalizeDirPath (path_join [normalizeDirPath ''/'', ''a''])]) = Some [''b'', ''p.jpg'']"
    unfolding pc by (simp add: coverEnv_def baseEnv_def)
  have ph: "photoEntries coverEnv (path_join [imageFolder coverEnv,
      normalizeDirPath (path_join [normalizeDirPath ''/'', ''a''])]) [''b'', ''p.jpg'']
      = [''p.jpg'']"
    unfolding pc by code_simp
  note main = scanDirectory_cover_probe_one_level [OF run ls only]
  have root1: "cover d = None" and root2: "media d = []"
    using main [THEN conjunct1] main [THEN conjunct2, THEN conjunct1] by this+
  have cin: "c \<in> set (directories d)" using dirs by simp
  note ch = main [THEN conjunct2, THEN conjunct2, THEN bspec, OF cin]
  have c1: "isPartial c" and c2: "lastScanned c = 0" and c3: "directories c = []"
    using ch [THEN conjunct1] ch [THEN conjunct2, THEN conjunct1]
      ch [THEN conjunct2, THEN conjunct2, THEN conjunct1] by this+
  from ch [THEN conjunct2, THEN conjunct2, THEN conjunct2]
  obtain f l where f: "f \<in> set [''a'']"
    and l: "fsReaddir coverEnv (path_join [imageFolder coverEnv,
              normalizeDirPath (path_join [normalizeDirPath ''/'', f])]) = Some l"
    and cs: "case photoEntries coverEnv (path_join [imageFolder coverEnv,
                   normalizeDirPath (path_join [normalizeDirPath ''/'', f])]) l of
             [] \<Rightarrow> cover c = None \<and> media c = []
           | p # _ \<Rightarrow>
               \<exists>md. cover c = Some \<lparr>mname = p,
                                mdirectory = Some \<lparr>dpath = path c, dname = name c\<rparr>,
                                metadata = md\<rparr>
                 \<and> media c = [\<lparr>mname = p, mdirectory = None, metadata = md\<rparr>]"
    by (elim bexE exE conjE)
  from f have fa: "f = ''a''" by simp
  from l have la: "l = [''b'', ''p.jpg'']" unfolding fa lsc by simp
  from cs obtain md where "cover c = Some \<lparr>mname = ''p.jpg'',
        mdirectory = Some \<lparr>dpath = path c, dname = name c\<rparr>, metadata = md\<rparr>"
      "media c = [\<lparr>mname = ''p.jpg'', mdirectory = None, metadata = md\<rparr>]"
    unfolding fa la ph by auto
  then have c4: "map_option mname (cover c) = Some ''p.jpg''"
    and c5: "map mname (media c) = [''p.jpg'']" by simp_all
  show ?thesis
    by (intro exI [of _ evs] exI [of _ d] exI [of _ c] conjI)
       (fact run ls st isd root1 root2 dirs c1 c2 c3 lsc ph c4 c5)+
qed

text \<open>
  Claim C1 as stated fails: the library root contains only the subdirectory \<open>a\<close>, \<open>a\<close>
  contains only \<open>b\<close>, and \<open>b\<close> holds the single photo. The scan of the root never lists \<open>b\<close>,
  the child snapshot of \<open>a\<close> has no cover and no children, and the root has no cover.
\<close>

theorem scanDirectory_deep_photo_not_cover:
  "\<exists>evs d c. scanDirectory deepEnv emptySettings ''/'' = (evs, Inr d)
     \<and> cover d = None \<and> directories d = [c] \<and> isPartial c \<and> lastScanned c = 0
     \<and> cover c = None \<and> directories c = []
     \<and> evs = [Stat ''/g/'', Readdir ''/g/'', Stat ''/g/a'', Stat ''/g/a'', Readdir ''/g/a'',
              Stat ''/g/a/b'']"
proof -
  have "scanDirectory deepEnv emptySettings ''/'' =
     ([Stat ''/g/'', Readdir ''/g/'', Stat ''/g/a'', Stat ''/g/a'', Readdir ''/g/a'',
       Stat ''/g/a/b''],
      Inr (DirectoryDTO None None ''.'' ''./'' 20 1000
        [DirectoryDTO None None ''a'' ''./'' 20 0 [] True 0 0 1 None False [] []]
        False 0 0 1 None False [] []))"
    by code_simp
  then show ?thesis by simp
qed

lemma set_media_same [simp]: "set_media (media d) d = d"
  by (simp add: set_media_def)

lemma set_media_twice [simp]: "set_media v (set_media w d) = set_media v d"
  by (simp add: set_media_def)

lemma media_set_media [simp]: "media (set_media v d) = v"
  by (simp add: set_media_def)












end
